theory Spec2Isabelle
  imports Main
begin

section \<open>The session logger of \<^verbatim>\<open>app/static/js/view/LogView.js\<close>\<close>

subsection \<open>Values exchanged with the socket\<close>

text \<open>
  The handlers receive whatever the socket delivers, that is, parsed JSON. An object is
  kept as the list of its own properties (the first entry of a key is its value);
  \<open>JUndefined\<close> is what reading a missing property gives. Numbers inside payloads are
  never computed with by the logger, so an integer stands for them. The logger only
  stores payloads and never writes into one, so a stored payload is a value here.
\<close>

datatype jsval =
    JUndefined
  | JNull
  | JBool bool
  | JNum int
  | JStr string
  | JArr "jsval list"
  | JObj "(string \<times> jsval) list"

datatype js_error = TypeError

text \<open>
  \<open>v[k]\<close> for a key that no prototype defines and that is neither an index nor
  \<^verbatim>\<open>"length"\<close>; the handlers read \<^verbatim>\<open>"objs"\<close> and \<^verbatim>\<open>"grippers"\<close>. Reading a
  property of \<^verbatim>\<open>undefined\<close> or \<^verbatim>\<open>null\<close> throws, an object gives the property or
  \<^verbatim>\<open>undefined\<close>, and every other value has no such property.
\<close>

fun get_prop :: "jsval \<Rightarrow> string \<Rightarrow> js_error + jsval" where
  "get_prop JUndefined k = Inl TypeError"
| "get_prop JNull k = Inl TypeError"
| "get_prop (JObj kvs) k = Inr (case map_of kvs k of None \<Rightarrow> JUndefined | Some x \<Rightarrow> x)"
| "get_prop v k = Inr JUndefined"

text \<open>
  \<^verbatim>\<open>Object.keys(v).length\<close>: \<^verbatim>\<open>Object.keys\<close> throws on \<^verbatim>\<open>undefined\<close> and
  \<^verbatim>\<open>null\<close>, gives no key for a number or a boolean, the indices of a string or an
  array, and the own keys of an object. The logger reads only the length.
\<close>

fun keys_length :: "jsval \<Rightarrow> js_error + nat" where
  "keys_length JUndefined = Inl TypeError"
| "keys_length JNull = Inl TypeError"
| "keys_length (JBool b) = Inr 0"
| "keys_length (JNum n) = Inr 0"
| "keys_length (JStr s) = Inr (length s)"
| "keys_length (JArr xs) = Inr (length xs)"
| "keys_length (JObj kvs) = Inr (length (remdups (map fst kvs)))"

subsection \<open>The logger's state\<close>

text \<open>
  \<^verbatim>\<open>this.data\<close> is the object \<^verbatim>\<open>{"log": [...], key: value, ...}\<close>: \<open>data_log\<close> is
  its \<^verbatim>\<open>"log"\<close> array of \<^verbatim>\<open>[timestamp, data]\<close> pairs and \<open>data_aux\<close> its other
  entries. \<open>startTime\<close> is \<open>None\<close> while \<^verbatim>\<open>this.startTime\<close> is \<^verbatim>\<open>undefined\<close>.
  The socket is read once, by the constructor, to register the four handlers; they are
  the functions \<open>update_state\<close>, \<open>update_grippers\<close>, \<open>update_objs\<close> and
  \<open>update_config\<close> below. The constructor's second parameter defaults to
  \<^verbatim>\<open>true\<close>, that is, \<open>LogView_constructor True\<close>. \<^verbatim>\<open>sendData\<close> only reads
  \<^verbatim>\<open>this.data\<close> and is left out.
\<close>

type_synonym snapshot = "int \<times> jsval"

record logger =
  data_log :: "snapshot list"
  data_aux :: "string \<rightharpoonup> jsval"
  logFullState :: bool
  startTime :: "int option"
  currentObjs :: jsval
  currentGrippers :: jsval
  currentConfig :: jsval

definition LogView_constructor :: "bool \<Rightarrow> logger" where
  "LogView_constructor fullState =
     \<lparr> data_log = [], data_aux = Map.empty, logFullState = fullState, startTime = None,
       currentObjs = JObj [], currentGrippers = JObj [], currentConfig = JObj [] \<rparr>"

text \<open>
  The test \<^verbatim>\<open>if (this.startTime)\<close>: \<^verbatim>\<open>undefined\<close> is falsy, and so is the number
  \<open>0\<close>. The result is the start time the handler then subtracts from \<^verbatim>\<open>Date.now()\<close>.
\<close>

fun truthy_time :: "int option \<Rightarrow> int option" where
  "truthy_time None = None"
| "truthy_time (Some t) = (if t = 0 then None else Some t)"

definition clock_set :: "logger \<Rightarrow> bool" where
  "clock_set s = (truthy_time (startTime s) \<noteq> None)"

definition getFullState :: "logger \<Rightarrow> jsval" where
  "getFullState s =
     JObj [(''objs'', currentObjs s), (''grippers'', currentGrippers s),
           (''config'', currentConfig s)]"

definition addSnapshot :: "int \<Rightarrow> jsval \<Rightarrow> logger \<Rightarrow> logger" where
  "addSnapshot timestamp d s = s\<lparr>data_log := data_log s @ [(timestamp, d)]\<rparr>"

definition clear :: "logger \<Rightarrow> logger" where
  "clear s =
     s\<lparr> data_log := [], data_aux := Map.empty, startTime := None,
        currentObjs := JObj [], currentGrippers := JObj [], currentConfig := JObj [] \<rparr>"

subsection \<open>The four socket handlers\<close>

text \<open>
  A handler calls \<^verbatim>\<open>Date.now()\<close> at most once, and \<open>now\<close> is the value the call
  returns. Only the \<^verbatim>\<open>update_state\<close> handler reads inside its payload and can
  throw; its outcome carries the logger as the handler has left it by then.
\<close>

datatype outcome = Returned logger | Threw js_error logger

fun logger_after :: "outcome \<Rightarrow> logger" where
  "logger_after (Returned s) = s"
| "logger_after (Threw e s) = s"

text \<open>
  The guard of lines 33-34,
  \<^verbatim>\<open>Object.keys(state["objs"]).length == 0 && Object.keys(state["grippers"]).length == 0\<close>,
  with the short circuit of \<^verbatim>\<open>&&\<close>: the right operand is evaluated only when the left
  one is true.
\<close>

definition empty_state_sent :: "jsval \<Rightarrow> js_error + bool" where
  "empty_state_sent state =
     (case get_prop state ''objs'' of
        Inl e \<Rightarrow> Inl e
      | Inr objs \<Rightarrow>
          (case keys_length objs of
             Inl e \<Rightarrow> Inl e
           | Inr n \<Rightarrow>
               if n = 0 then
                 (case get_prop state ''grippers'' of
                    Inl e \<Rightarrow> Inl e
                  | Inr grippers \<Rightarrow>
                      (case keys_length grippers of
                         Inl e \<Rightarrow> Inl e
                       | Inr m \<Rightarrow> Inr (m = 0)))
               else Inr False))"

text \<open>Lines 42-48 of the \<^verbatim>\<open>update_state\<close> handler, once \<open>timeOffset\<close> is known.\<close>

definition log_state :: "int \<Rightarrow> jsval \<Rightarrow> logger \<Rightarrow> outcome" where
  "log_state timeOffset state s =
     (if logFullState s then
        (case get_prop state ''objs'' of
           Inl e \<Rightarrow> Threw e s
         | Inr objs \<Rightarrow>
             (let s1 = s\<lparr>currentObjs := objs\<rparr> in
              case get_prop state ''grippers'' of
                Inl e \<Rightarrow> Threw e s1
              | Inr grippers \<Rightarrow>
                  (let s2 = s1\<lparr>currentGrippers := grippers\<rparr> in
                   Returned (addSnapshot timeOffset (getFullState s2) s2))))
      else Returned (addSnapshot timeOffset state s))"

definition update_state :: "int \<Rightarrow> jsval \<Rightarrow> logger \<Rightarrow> outcome" where
  "update_state now state s =
     (case truthy_time (startTime s) of
        None \<Rightarrow>
          (case empty_state_sent state of
             Inl e \<Rightarrow> Threw e s
           | Inr True \<Rightarrow> Returned s
           | Inr False \<Rightarrow> log_state 0 state (s\<lparr>startTime := Some now\<rparr>))
      | Some t0 \<Rightarrow> log_state (now - t0) state s)"

definition update_grippers :: "int \<Rightarrow> jsval \<Rightarrow> logger \<Rightarrow> logger" where
  "update_grippers now grippers s =
     (case truthy_time (startTime s) of
        None \<Rightarrow> s
      | Some t0 \<Rightarrow>
          (let timeOffset = now - t0 in
           if logFullState s then
             (let s1 = s\<lparr>currentGrippers := grippers\<rparr> in
              addSnapshot timeOffset (getFullState s1) s1)
           else addSnapshot timeOffset (JObj [(''gripper'', grippers)]) s))"

definition update_objs :: "int \<Rightarrow> jsval \<Rightarrow> logger \<Rightarrow> logger" where
  "update_objs now objs s =
     (case truthy_time (startTime s) of
        None \<Rightarrow> s
      | Some t0 \<Rightarrow>
          (let timeOffset = now - t0 in
           if logFullState s then
             (let s1 = s\<lparr>currentObjs := objs\<rparr> in
              addSnapshot timeOffset (getFullState s1) s1)
           else addSnapshot timeOffset (JObj [(''objs'', objs)]) s))"

definition update_config :: "int \<Rightarrow> jsval \<Rightarrow> logger \<Rightarrow> logger" where
  "update_config now config s =
     (case truthy_time (startTime s) of
        Some t0 \<Rightarrow>
          (let timeOffset = now - t0 in
           if logFullState s then
             (let s1 = s\<lparr>currentConfig := config\<rparr> in
              addSnapshot timeOffset (getFullState s1) s1)
           else addSnapshot timeOffset (JObj [(''config'', config)]) s)
      | None \<Rightarrow>
          if logFullState s then s\<lparr>currentConfig := config\<rparr>
          else addSnapshot (- 1) (JObj [(''config'', config)]) s)"

text \<open>
  An event as the socket delivers it, and the handler registered for it. A sequence of
  deliveries, each with the clock reading of its handler, is run in order; a handler
  that throws does not stop the socket from delivering the later events.
\<close>

datatype event =
    Update_state jsval
  | Update_grippers jsval
  | Update_objs jsval
  | Update_config jsval

fun react :: "int \<Rightarrow> event \<Rightarrow> logger \<Rightarrow> outcome" where
  "react now (Update_state state) s = update_state now state s"
| "react now (Update_grippers grippers) s = Returned (update_grippers now grippers s)"
| "react now (Update_objs objs) s = Returned (update_objs now objs s)"
| "react now (Update_config config) s = Returned (update_config now config s)"

fun run :: "(int \<times> event) list \<Rightarrow> logger \<Rightarrow> logger" where
  "run [] s = s"
| "run ((now, ev) # evs) s = run evs (logger_after (react now ev s))"

subsection \<open>Auxiliary data\<close>

text \<open>
  \<open>addData\<close> has no \<^verbatim>\<open>return\<close> statement, so the caller gets \<^verbatim>\<open>undefined\<close> on
  either branch; \<open>console\<close> is what the call passes to \<^verbatim>\<open>console.log\<close>. The key is
  a string, as the function's documentation says. (The key \<^verbatim>\<open>"__proto__"\<close>, which
  JavaScript hands to the prototype setter instead of storing an entry, is stored like
  any other key here; nothing below depends on it.)
\<close>

record call_result =
  returned :: jsval
  console :: "string list"
  logger_of :: logger

definition addData :: "string \<Rightarrow> jsval \<Rightarrow> logger \<Rightarrow> call_result" where
  "addData key d s =
     (if key = ''log'' then
        \<lparr> returned = JUndefined,
          console = [''Error at LogView: Cannot manually add data with reserved key 'log'.''],
          logger_of = s \<rparr>
      else
        \<lparr> returned = JUndefined, console = [],
          logger_of = s\<lparr>data_aux := (data_aux s)(key \<mapsto> d)\<rparr> \<rparr>)"

subsection \<open>The events of the specification\<close>

text \<open>
  A full-state payload as the specification types it: an object whose \<^verbatim>\<open>objs\<close> and
  \<^verbatim>\<open>grippers\<close> fields are both mappings.
\<close>

fun is_mapping :: "jsval \<Rightarrow> bool" where
  "is_mapping (JObj kvs) = True"
| "is_mapping v = False"

fun wf_state :: "jsval \<Rightarrow> bool" where
  "wf_state (JObj kvs) =
     (case (map_of kvs ''objs'', map_of kvs ''grippers'') of
        (Some objs, Some grippers) \<Rightarrow> is_mapping objs \<and> is_mapping grippers
      | _ \<Rightarrow> False)"
| "wf_state v = False"

fun wf_event :: "event \<Rightarrow> bool" where
  "wf_event (Update_state state) = wf_state state"
| "wf_event ev = True"

text \<open>
  The recording rules in the specification's words. \<open>both_empty\<close>: the payload's
  \<^verbatim>\<open>objs\<close> and \<^verbatim>\<open>grippers\<close> are both the empty mapping. \<open>qualifies full started ev\<close>:
  the event is recorded by a logger of mode \<open>full\<close> whose clock is set (\<open>started\<close>) or
  not. \<open>starts\<close>: the event is a full-state event that sets an unset clock.
  \<open>count_qualifying\<close> counts the recorded events of a sequence, the clock being set
  from the first full-state event that is not skipped.
\<close>

fun both_empty :: "jsval \<Rightarrow> bool" where
  "both_empty (JObj kvs) =
     (map_of kvs ''objs'' = Some (JObj []) \<and> map_of kvs ''grippers'' = Some (JObj []))"
| "both_empty v = False"

fun qualifies :: "bool \<Rightarrow> bool \<Rightarrow> event \<Rightarrow> bool" where
  "qualifies full started (Update_state state) = (started \<or> \<not> both_empty state)"
| "qualifies full started (Update_grippers grippers) = started"
| "qualifies full started (Update_objs objs) = started"
| "qualifies full started (Update_config config) = (started \<or> \<not> full)"

fun starts :: "event \<Rightarrow> bool" where
  "starts (Update_state state) = (\<not> both_empty state)"
| "starts ev = False"

fun count_qualifying :: "bool \<Rightarrow> bool \<Rightarrow> event list \<Rightarrow> nat" where
  "count_qualifying full started [] = 0"
| "count_qualifying full started (ev # evs) =
     (if qualifies full started ev then 1 else 0)
     + count_qualifying full (started \<or> starts ev) evs"

text \<open>
  Events that a logger whose clock is unset ignores, in the specification's words: a
  full-state event with both mappings empty, a gripper update, an object update.
\<close>

fun ignored_before_start :: "event \<Rightarrow> bool" where
  "ignored_before_start (Update_state state) = (wf_state state \<and> both_empty state)"
| "ignored_before_start (Update_grippers grippers) = True"
| "ignored_before_start (Update_objs objs) = True"
| "ignored_before_start (Update_config config) = False"

subsection \<open>Sample inputs\<close>

text \<open>
  The payloads of the specification's scenarios 1 and 2, and a session that has every
  kind of event before and after its first non-empty full state.
\<close>

definition empty_state :: jsval where
  "empty_state = JObj [(''objs'', JObj []), (''grippers'', JObj [])]"

definition first_state :: jsval where
  "first_state = JObj [(''objs'', JObj [(''a'', JNum 1)]), (''grippers'', JObj [])]"

definition sample_events :: "(int \<times> event) list" where
  "sample_events =
     [(5, Update_config (JObj [(''width'', JNum 20)])),
      (7, Update_grippers (JObj [(''g'', JNum 1)])),
      (10, Update_state empty_state),
      (12, Update_state first_state),
      (15, Update_grippers (JObj [(''g'', JNum 2)])),
      (20, Update_objs (JObj [])),
      (26, Update_config (JObj []))]"

text \<open>A full-state-mode logger in mid-session, with one auxiliary entry.\<close>

definition running_logger :: logger where
  "running_logger =
     \<lparr> data_log = [(0, JObj [(''objs'', JObj [(''a'', JNum 1)]), (''grippers'', JObj []),
                              (''config'', JObj [])])],
       data_aux = [''participant'' \<mapsto> JStr ''p1''], logFullState = True,
       startTime = Some 100, currentObjs = JObj [(''a'', JNum 1)],
       currentGrippers = JObj [], currentConfig = JObj [] \<rparr>"

subsection \<open>Facts about the handlers\<close>

lemma is_mapping_iff: "is_mapping v \<longleftrightarrow> (\<exists>kvs. v = JObj kvs)"
  by (cases v) simp_all

lemma wf_stateE:
  assumes "wf_state state"
  obtains kvs os gs where "state = JObj kvs" "map_of kvs ''objs'' = Some (JObj os)"
    "map_of kvs ''grippers'' = Some (JObj gs)"
  using assms by (cases state) (auto simp: is_mapping_iff split: option.splits)

lemma wf_state_get_prop:
  assumes "wf_state state"
  obtains objs grippers where "get_prop state ''objs'' = Inr objs"
    "get_prop state ''grippers'' = Inr grippers"
  using assms by (elim wf_stateE) simp

text \<open>On a payload of the specification's type the guard computes \<open>both_empty\<close>.\<close>

lemma empty_state_sent_wf: "wf_state state \<Longrightarrow> empty_state_sent state = Inr (both_empty state)"
  by (erule wf_stateE) (simp add: empty_state_sent_def)

lemma log_state_returns:
  assumes "get_prop state ''objs'' = Inr objs" "get_prop state ''grippers'' = Inr grippers"
  shows "log_state off state s =
     Returned (if logFullState s
       then s\<lparr>currentObjs := objs, currentGrippers := grippers,
              data_log := data_log s @
                [(off, JObj [(''objs'', objs), (''grippers'', grippers),
                             (''config'', currentConfig s)])]\<rparr>
       else s\<lparr>data_log := data_log s @ [(off, state)]\<rparr>)"
  using assms by (simp add: log_state_def addSnapshot_def getFullState_def Let_def)

text \<open>
  A handler that throws has assigned nothing yet: the only throwing expressions are the
  property reads of a payload that is \<^verbatim>\<open>undefined\<close> or \<^verbatim>\<open>null\<close> (or has such an
  \<^verbatim>\<open>objs\<close> or \<^verbatim>\<open>grippers\<close>), and the first of them comes before any assignment.
\<close>

lemma log_state_Threw:
  "log_state off state s = Threw e s' \<Longrightarrow> s' = s \<and> (state = JUndefined \<or> state = JNull)"
  by (cases state) (simp_all add: log_state_def Let_def split: if_splits)

lemma empty_state_sent_Inr:
  "empty_state_sent state = Inr b \<Longrightarrow> state \<noteq> JUndefined \<and> state \<noteq> JNull"
  by (cases state) (simp_all add: empty_state_sent_def)

lemma update_state_Threw: "update_state now state s = Threw e s' \<Longrightarrow> s' = s"
  unfolding update_state_def
  by (auto split: option.splits sum.splits bool.splits
           dest!: log_state_Threw empty_state_sent_Inr)

text \<open>
  A start time of \<open>0\<close>, which a handler would get from \<^verbatim>\<open>Date.now()\<close> only at the
  very instant of the epoch, is falsy: the logger goes on taking its clock as unset.
  The facts below are therefore about clock readings other than \<open>0\<close>.
\<close>

lemma start_time_zero_is_unset:
  "startTime (logger_after (update_state 0 first_state (LogView_constructor full))) = Some 0
   \<and> \<not> clock_set (logger_after (update_state 0 first_state (LogView_constructor full)))"
  by (simp add: update_state_def empty_state_sent_def log_state_def addSnapshot_def
        LogView_constructor_def first_state_def clock_set_def)

text \<open>One delivery: the mode stays, and the clock and the log move as the rules say.\<close>

lemma update_state_wf:
  assumes "now \<noteq> 0" "wf_state state"
  shows "logFullState (logger_after (update_state now state s)) = logFullState s
       \<and> clock_set (logger_after (update_state now state s)) = (clock_set s \<or> \<not> both_empty state)
       \<and> length (data_log (logger_after (update_state now state s))) =
           length (data_log s) + (if clock_set s \<or> \<not> both_empty state then 1 else 0)"
proof -
  from assms(2) obtain objs grippers where
    g: "get_prop state ''objs'' = Inr objs" "get_prop state ''grippers'' = Inr grippers"
    by (rule wf_state_get_prop)
  show ?thesis
  proof (cases "truthy_time (startTime s)")
    case None
    with assms show ?thesis
      by (simp add: update_state_def empty_state_sent_wf clock_set_def log_state_returns[OF g])
  next
    case (Some t0)
    then show ?thesis
      by (simp add: update_state_def clock_set_def log_state_returns[OF g])
  qed
qed

lemma react_step:
  assumes "now \<noteq> 0" "wf_event ev"
  shows "logFullState (logger_after (react now ev s)) = logFullState s
       \<and> clock_set (logger_after (react now ev s)) = (clock_set s \<or> starts ev)
       \<and> length (data_log (logger_after (react now ev s))) =
           length (data_log s) + (if qualifies (logFullState s) (clock_set s) ev then 1 else 0)"
proof (cases ev)
  case (Update_state state)
  with assms update_state_wf[of now state s] show ?thesis by simp
next
  case (Update_grippers grippers)
  then show ?thesis
    by (simp add: update_grippers_def clock_set_def addSnapshot_def Let_def
             split: option.splits)
next
  case (Update_objs objs)
  then show ?thesis
    by (simp add: update_objs_def clock_set_def addSnapshot_def Let_def
             split: option.splits)
next
  case (Update_config config)
  then show ?thesis
    by (simp add: update_config_def clock_set_def addSnapshot_def Let_def
             split: option.splits)
qed

lemma run_length:
  assumes "list_all (\<lambda>(now, ev). now \<noteq> 0 \<and> wf_event ev) evs"
  shows "length (data_log (run evs s)) =
     length (data_log s) + count_qualifying (logFullState s) (clock_set s) (map snd evs)"
  using assms
proof (induction evs arbitrary: s)
  case Nil
  show ?case by simp
next
  case (Cons a evs)
  obtain now ev where a: "a = (now, ev)" by (cases a)
  from Cons.prems a have h: "now \<noteq> 0" "wf_event ev"
    and rest: "list_all (\<lambda>(now, ev). now \<noteq> 0 \<and> wf_event ev) evs" by auto
  note step = react_step[OF h, of s]
  from Cons.IH[OF rest, of "logger_after (react now ev s)"] step a
  show ?case by simp
qed

text \<open>Before the clock is set, the ignored events leave the logger as it is.\<close>

lemma react_ignored:
  assumes "\<not> clock_set s" "ignored_before_start ev"
  shows "react now ev s = Returned s"
proof (cases ev)
  case (Update_state state)
  with assms show ?thesis
    by (simp add: update_state_def empty_state_sent_wf clock_set_def)
next
  case (Update_grippers grippers)
  with assms show ?thesis by (simp add: update_grippers_def clock_set_def)
next
  case (Update_objs objs)
  with assms show ?thesis by (simp add: update_objs_def clock_set_def)
next
  case (Update_config config)
  with assms show ?thesis by simp
qed

lemma run_ignored:
  assumes "\<not> clock_set s" "list_all (\<lambda>(now, ev). ignored_before_start ev) evs"
  shows "run evs s = s"
  using assms(2)
proof (induction evs)
  case Nil
  show ?case by simp
next
  case (Cons a evs)
  obtain now ev where a: "a = (now, ev)" by (cases a)
  with Cons assms(1) show ?case by (simp add: react_ignored)
qed

text \<open>The sample logger is a state the code reaches.\<close>

lemma running_logger_reached:
  "logger_after (update_state 100 first_state
     (logger_of (addData ''participant'' (JStr ''p1'') (LogView_constructor True))))
   = running_logger"
  by (simp add: running_logger_def addData_def update_state_def empty_state_sent_def
        log_state_def addSnapshot_def getFullState_def LogView_constructor_def first_state_def)

text \<open>
  With the clock set, a delivery keeps the start time, and a handler that returns has
  appended one snapshot at the offset from it.
\<close>

lemma react_started:
  assumes "startTime s = Some t0" "t0 \<noteq> 0"
  shows "startTime (logger_after (react now ev s)) = Some t0
     \<and> (wf_event ev \<longrightarrow>
          (\<exists>p. data_log (logger_after (react now ev s)) = data_log s @ [(now - t0, p)]))"
proof (cases ev)
  case (Update_state state)
  have st: "startTime (logger_after (update_state now state s)) = Some t0"
  proof (cases "update_state now state s")
    case (Threw e s')
    with update_state_Threw[OF Threw] assms show ?thesis by simp
  next
    case (Returned s')
    with assms show ?thesis
      by (auto simp: update_state_def log_state_def addSnapshot_def Let_def
            split: sum.splits if_splits)
  qed
  have "\<exists>p. data_log (logger_after (update_state now state s)) = data_log s @ [(now - t0, p)]"
    if "wf_state state"
  proof -
    from that obtain objs grippers where
      g: "get_prop state ''objs'' = Inr objs" "get_prop state ''grippers'' = Inr grippers"
      by (rule wf_state_get_prop)
    from assms show ?thesis
      by (simp add: update_state_def log_state_returns[OF g])
  qed
  with st Update_state show ?thesis by simp
next
  case (Update_grippers grippers)
  with assms show ?thesis
    by (simp add: update_grippers_def addSnapshot_def Let_def)
next
  case (Update_objs objs)
  with assms show ?thesis
    by (simp add: update_objs_def addSnapshot_def Let_def)
next
  case (Update_config config)
  with assms show ?thesis
    by (simp add: update_config_def addSnapshot_def Let_def)
qed

lemma run_started:
  assumes "startTime s = Some t0" "t0 \<noteq> 0"
  shows "startTime (run evs s) = Some t0"
  using assms(1)
proof (induction evs arbitrary: s)
  case Nil
  then show ?case by simp
next
  case (Cons a evs)
  obtain now ev where a: "a = (now, ev)" by (cases a)
  from react_started[OF Cons.prems assms(2), of now ev]
  have "startTime (logger_after (react now ev s)) = Some t0" by simp
  from Cons.IH[OF this] a show ?case by simp
qed

lemma run_offsets:
  assumes "startTime s = Some t0" "t0 \<noteq> 0" "list_all (\<lambda>(now, ev). wf_event ev) evs"
  shows "\<exists>ps. data_log (run evs s) = data_log s @ ps
     \<and> map fst ps = map (\<lambda>(now, ev). now - t0) evs"
  using assms(1,3)
proof (induction evs arbitrary: s)
  case Nil
  then show ?case by simp
next
  case (Cons a evs)
  obtain now ev where a: "a = (now, ev)" by (cases a)
  let ?s = "logger_after (react now ev s)"
  from Cons.prems a have wf: "wf_event ev" and rest: "list_all (\<lambda>(now, ev). wf_event ev) evs"
    by simp_all
  from react_started[OF Cons.prems(1) assms(2), of now ev] wf
  obtain p where st: "startTime ?s = Some t0" and l: "data_log ?s = data_log s @ [(now - t0, p)]"
    by auto
  from Cons.IH[OF st rest] obtain ps where
    "data_log (run evs ?s) = data_log ?s @ ps" "map fst ps = map (\<lambda>(now, ev). now - t0) evs"
    by auto
  with l a have "data_log (run (a # evs) s) = data_log s @ ((now - t0, p) # ps)
     \<and> map fst ((now - t0, p) # ps) = map (\<lambda>(now, ev). now - t0) (a # evs)"
    by simp
  then show ?case by blast
qed

subsection \<open>Theorems\<close>

text \<open>
  C1. For every sequence of events of the specification's payload types, delivered to a
  freshly constructed logger of either mode at clock readings other than \<open>0\<close>, the
  length of the log is the number of events that qualify for recording: all but an
  empty full state, a gripper update or an object update that arrives while the clock
  is unset, and a config update that arrives while the clock is unset in full-state
  mode.
\<close>

theorem log_length_counts_qualifying:
  assumes "list_all (\<lambda>(now, ev). now \<noteq> 0 \<and> wf_event ev) evs"
  shows "length (data_log (run evs (LogView_constructor full))) =
     count_qualifying full False (map snd evs)"
  using run_length[OF assms, of "LogView_constructor full"]
  by (simp add: LogView_constructor_def clock_set_def)

theorem log_length_counts_qualifying_witness:
  "list_all (\<lambda>(now, ev). now \<noteq> 0 \<and> wf_event ev) sample_events
   \<and> length (data_log (run sample_events (LogView_constructor False))) = 5
   \<and> length (data_log (run sample_events (LogView_constructor True))) = 4"
proof -
  have h: "list_all (\<lambda>(now, ev). now \<noteq> 0 \<and> wf_event ev) sample_events"
    by (simp add: sample_events_def empty_state_def first_state_def)
  have "count_qualifying False False (map snd sample_events) = 5"
    and "count_qualifying True False (map snd sample_events) = 4"
    by (simp_all add: sample_events_def empty_state_def first_state_def)
  with h log_length_counts_qualifying[OF h, of False]
    log_length_counts_qualifying[OF h, of True]
  show ?thesis by simp
qed

text \<open>
  C2. On a fresh full-state-mode logger, a full-state event whose \<^verbatim>\<open>objs\<close> mapping is
  not empty sets the start time to the clock reading and appends exactly one snapshot,
  at offset \<open>0\<close>, holding the payload's \<^verbatim>\<open>objs\<close> and \<^verbatim>\<open>grippers\<close> and the initial
  empty config. (The logger then takes its clock as set unless the reading was \<open>0\<close>.)
\<close>

theorem first_state_starts_clock:
  assumes "get_prop state ''objs'' = Inr (JObj os)" "os \<noteq> []"
    and "get_prop state ''grippers'' = Inr grippers"
  shows "update_state now state (LogView_constructor True) =
     Returned ((LogView_constructor True)
       \<lparr>startTime := Some now, currentObjs := JObj os, currentGrippers := grippers,
        data_log := [(0, JObj [(''objs'', JObj os), (''grippers'', grippers),
                               (''config'', JObj [])])]\<rparr>)
     \<and> clock_set (logger_after (update_state now state (LogView_constructor True)))
         = (now \<noteq> 0)"
proof -
  have "empty_state_sent state = Inr False"
    using assms by (simp add: empty_state_sent_def)
  then show ?thesis
    using assms(1,3)
    by (simp add: update_state_def log_state_returns LogView_constructor_def clock_set_def)
qed

theorem first_state_starts_clock_witness:
  "get_prop first_state ''objs'' = Inr (JObj [(''a'', JNum 1)])
   \<and> [(''a'', JNum 1)] \<noteq> []
   \<and> get_prop first_state ''grippers'' = Inr (JObj [])
   \<and> update_state 1700000000000 first_state (LogView_constructor True) =
       Returned \<lparr> data_log =
           [(0, JObj [(''objs'', JObj [(''a'', JNum 1)]), (''grippers'', JObj []),
                      (''config'', JObj [])])],
         data_aux = Map.empty, logFullState = True, startTime = Some 1700000000000,
         currentObjs = JObj [(''a'', JNum 1)], currentGrippers = JObj [],
         currentConfig = JObj [] \<rparr>
   \<and> clock_set (logger_after
         (update_state 1700000000000 first_state (LogView_constructor True)))"
proof -
  have h: "get_prop first_state ''objs'' = Inr (JObj [(''a'', JNum 1)])"
    "[(''a'', JNum 1)] \<noteq> []" "get_prop first_state ''grippers'' = Inr (JObj [])"
    by (simp_all add: first_state_def)
  from h first_state_starts_clock[OF h, of 1700000000000]
  show ?thesis by (simp add: LogView_constructor_def clock_set_def)
qed

text \<open>
  C3. A logger whose clock is unset ignores a full-state event whose \<^verbatim>\<open>objs\<close> and
  \<^verbatim>\<open>grippers\<close> are both empty mappings: the handler returns with the logger exactly as
  it was, so no snapshot is appended, the clock stays unset and no accumulated substate
  changes.
\<close>

theorem empty_state_ignored:
  assumes "\<not> clock_set s"
    and "get_prop state ''objs'' = Inr (JObj [])" "get_prop state ''grippers'' = Inr (JObj [])"
  shows "update_state now state s = Returned s"
  using assms by (simp add: update_state_def empty_state_sent_def clock_set_def)

theorem empty_state_ignored_witness:
  "\<not> clock_set (update_config 3 (JObj [(''width'', JNum 20)]) (LogView_constructor True))
   \<and> get_prop empty_state ''objs'' = Inr (JObj [])
   \<and> get_prop empty_state ''grippers'' = Inr (JObj [])
   \<and> update_state 8 empty_state
         (update_config 3 (JObj [(''width'', JNum 20)]) (LogView_constructor True))
       = Returned \<lparr> data_log = [], data_aux = Map.empty, logFullState = True,
           startTime = None, currentObjs = JObj [], currentGrippers = JObj [],
           currentConfig = JObj [(''width'', JNum 20)] \<rparr>"
proof -
  let ?s = "update_config 3 (JObj [(''width'', JNum 20)]) (LogView_constructor True)"
  have h: "\<not> clock_set ?s" "get_prop empty_state ''objs'' = Inr (JObj [])"
    "get_prop empty_state ''grippers'' = Inr (JObj [])"
    by (simp_all add: empty_state_def update_config_def LogView_constructor_def clock_set_def)
  from h empty_state_ignored[OF h, of 8]
  show ?thesis by (simp add: update_config_def LogView_constructor_def)
qed

text \<open>
  C4. In full-state mode with the clock unset, a config event appends no snapshot and
  stores its payload as the accumulated config; the next full-state event that is not
  skipped, with only ignored events in between, records a snapshot (at offset \<open>0\<close>)
  whose \<^verbatim>\<open>config\<close> is that stored payload.
\<close>

theorem early_config_cached:
  assumes "logFullState s" "\<not> clock_set s"
    and "list_all (\<lambda>(t, ev). ignored_before_start ev) mid"
    and "wf_state state" "\<not> both_empty state"
    and "get_prop state ''objs'' = Inr objs" "get_prop state ''grippers'' = Inr grippers"
  shows "update_config now config s = s\<lparr>currentConfig := config\<rparr>
     \<and> data_log (update_config now config s) = data_log s
     \<and> update_state now' state (run mid (update_config now config s)) =
        Returned (s\<lparr>startTime := Some now', currentObjs := objs, currentGrippers := grippers,
                    currentConfig := config,
                    data_log := data_log s @
                      [(0, JObj [(''objs'', objs), (''grippers'', grippers),
                                 (''config'', config)])]\<rparr>)"
proof -
  have c: "update_config now config s = s\<lparr>currentConfig := config\<rparr>"
    using assms(1,2) by (simp add: update_config_def clock_set_def split: option.splits)
  have "\<not> clock_set (s\<lparr>currentConfig := config\<rparr>)"
    using assms(2) by (simp add: clock_set_def)
  then have r: "run mid (s\<lparr>currentConfig := config\<rparr>) = s\<lparr>currentConfig := config\<rparr>"
    using assms(3) by (rule run_ignored)
  have "update_state now' state (s\<lparr>currentConfig := config\<rparr>) =
        Returned (s\<lparr>startTime := Some now', currentObjs := objs, currentGrippers := grippers,
                    currentConfig := config,
                    data_log := data_log s @
                      [(0, JObj [(''objs'', objs), (''grippers'', grippers),
                                 (''config'', config)])]\<rparr>)"
    using assms(1,2,5)
    by (simp add: update_state_def empty_state_sent_wf[OF assms(4)] clock_set_def
          log_state_returns[OF assms(6,7)] split: option.splits)
  with c r show ?thesis by simp
qed

theorem early_config_cached_witness:
  "logFullState (LogView_constructor True) \<and> \<not> clock_set (LogView_constructor True)
   \<and> list_all (\<lambda>(t, ev). ignored_before_start ev)
        [(4::int, Update_grippers (JObj [(''g'', JNum 1)])), (6, Update_state empty_state)]
   \<and> wf_state first_state \<and> \<not> both_empty first_state
   \<and> get_prop first_state ''objs'' = Inr (JObj [(''a'', JNum 1)])
   \<and> get_prop first_state ''grippers'' = Inr (JObj [])
   \<and> data_log (update_config 2 (JObj [(''width'', JNum 20)]) (LogView_constructor True)) = []
   \<and> currentConfig (update_config 2 (JObj [(''width'', JNum 20)]) (LogView_constructor True))
       = JObj [(''width'', JNum 20)]
   \<and> data_log (logger_after (update_state 9 first_state
        (run [(4, Update_grippers (JObj [(''g'', JNum 1)])), (6, Update_state empty_state)]
          (update_config 2 (JObj [(''width'', JNum 20)]) (LogView_constructor True)))))
       = [(0, JObj [(''objs'', JObj [(''a'', JNum 1)]), (''grippers'', JObj []),
                    (''config'', JObj [(''width'', JNum 20)])])]"
proof -
  have h: "logFullState (LogView_constructor True)" "\<not> clock_set (LogView_constructor True)"
    "list_all (\<lambda>(t, ev). ignored_before_start ev)
        [(4::int, Update_grippers (JObj [(''g'', JNum 1)])), (6, Update_state empty_state)]"
    "wf_state first_state" "\<not> both_empty first_state"
    "get_prop first_state ''objs'' = Inr (JObj [(''a'', JNum 1)])"
    "get_prop first_state ''grippers'' = Inr (JObj [])"
    by (simp_all add: LogView_constructor_def clock_set_def empty_state_def first_state_def)
  note w = early_config_cached[OF h, of 2 "JObj [(''width'', JNum 20)]" 9]
  from w have c: "update_config 2 (JObj [(''width'', JNum 20)]) (LogView_constructor True) =
      (LogView_constructor True)\<lparr>currentConfig := JObj [(''width'', JNum 20)]\<rparr>"
    by (rule conjunct1)
  from w have r: "update_state 9 first_state
        (run [(4, Update_grippers (JObj [(''g'', JNum 1)])), (6, Update_state empty_state)]
          (update_config 2 (JObj [(''width'', JNum 20)]) (LogView_constructor True))) =
      Returned ((LogView_constructor True)\<lparr>startTime := Some 9,
           currentObjs := JObj [(''a'', JNum 1)], currentGrippers := JObj [],
           currentConfig := JObj [(''width'', JNum 20)],
           data_log := data_log (LogView_constructor True) @
             [(0, JObj [(''objs'', JObj [(''a'', JNum 1)]), (''grippers'', JObj []),
                        (''config'', JObj [(''width'', JNum 20)])])]\<rparr>)"
    by (rule conjunct2[THEN conjunct2])
  have "data_log (logger_after (update_state 9 first_state
        (run [(4, Update_grippers (JObj [(''g'', JNum 1)])), (6, Update_state empty_state)]
          (update_config 2 (JObj [(''width'', JNum 20)]) (LogView_constructor True)))))
       = [(0, JObj [(''objs'', JObj [(''a'', JNum 1)]), (''grippers'', JObj []),
                    (''config'', JObj [(''width'', JNum 20)])])]"
    unfolding r by (simp add: LogView_constructor_def)
  moreover have "data_log (update_config 2 (JObj [(''width'', JNum 20)]) (LogView_constructor True)) = []"
    "currentConfig (update_config 2 (JObj [(''width'', JNum 20)]) (LogView_constructor True))
       = JObj [(''width'', JNum 20)]"
    unfolding c by (simp_all add: LogView_constructor_def)
  ultimately show ?thesis using h by blast
qed

text \<open>
  C5. In delta mode with the clock unset, a config event appends the snapshot
  \<open>(-1, {config: payload})\<close> and changes nothing else. No other kind of event is
  recorded while the clock stays unset: a delivery (at a clock reading other than
  \<open>0\<close>) to a logger with unset clock that changes the log and leaves the clock unset is
  a config event to a delta-mode logger.
\<close>

theorem early_config_logged_in_delta_mode:
  assumes "\<not> logFullState s" "\<not> clock_set s"
  shows "update_config now config s =
       s\<lparr>data_log := data_log s @ [(- 1, JObj [(''config'', config)])]\<rparr>
     \<and> (\<forall>s' now' ev. \<not> clock_set s' \<and> now' \<noteq> 0
           \<and> data_log (logger_after (react now' ev s')) \<noteq> data_log s'
           \<and> \<not> clock_set (logger_after (react now' ev s'))
         \<longrightarrow> (\<exists>c. ev = Update_config c) \<and> \<not> logFullState s')"
proof (intro conjI allI impI)
  show "update_config now config s =
       s\<lparr>data_log := data_log s @ [(- 1, JObj [(''config'', config)])]\<rparr>"
    using assms by (simp add: update_config_def clock_set_def addSnapshot_def split: option.splits)
next
  fix s' now' ev
  assume "\<not> clock_set s' \<and> now' \<noteq> 0
           \<and> data_log (logger_after (react now' ev s')) \<noteq> data_log s'
           \<and> \<not> clock_set (logger_after (react now' ev s'))"
  then have a: "truthy_time (startTime s') = None" "now' \<noteq> 0"
    "data_log (logger_after (react now' ev s')) \<noteq> data_log s'"
    "\<not> clock_set (logger_after (react now' ev s'))"
    by (simp_all add: clock_set_def)
  show "\<exists>c. ev = Update_config c"
  proof (cases ev)
    case (Update_state state)
    show ?thesis
    proof (cases "update_state now' state s'")
      case (Threw e s'')
      with a(3) Update_state update_state_Threw[OF Threw] show ?thesis by simp
    next
      case (Returned s'')
      with a Update_state show ?thesis
        by (auto simp: update_state_def log_state_def clock_set_def Let_def addSnapshot_def
              split: sum.splits bool.splits if_splits)
    qed
  next
    case (Update_grippers grippers)
    with a show ?thesis by (simp add: update_grippers_def)
  next
    case (Update_objs objs)
    with a show ?thesis by (simp add: update_objs_def)
  next
    case (Update_config c)
    then show ?thesis by simp
  qed
  then obtain c where "ev = Update_config c" ..
  with a show "\<not> logFullState s'"
    by (auto simp: update_config_def)
qed

theorem early_config_logged_in_delta_mode_witness:
  "\<not> logFullState (LogView_constructor False) \<and> \<not> clock_set (LogView_constructor False)
   \<and> update_config 3 (JObj [(''width'', JNum 20)]) (LogView_constructor False) =
       \<lparr> data_log = [(- 1, JObj [(''config'', JObj [(''width'', JNum 20)])])],
         data_aux = Map.empty, logFullState = False, startTime = None,
         currentObjs = JObj [], currentGrippers = JObj [], currentConfig = JObj [] \<rparr>
   \<and> (3::int) \<noteq> 0
   \<and> data_log (logger_after
         (react 3 (Update_config (JObj [(''width'', JNum 20)])) (LogView_constructor False)))
       \<noteq> data_log (LogView_constructor False)
   \<and> \<not> clock_set (logger_after
         (react 3 (Update_config (JObj [(''width'', JNum 20)])) (LogView_constructor False)))
   \<and> (\<exists>c. Update_config (JObj [(''width'', JNum 20)]) = Update_config c)"
proof -
  have h: "\<not> logFullState (LogView_constructor False)"
    "\<not> clock_set (LogView_constructor False)"
    by (simp_all add: LogView_constructor_def clock_set_def)
  note w = early_config_logged_in_delta_mode[OF h, of 3 "JObj [(''width'', JNum 20)]"]
  from w have c: "update_config 3 (JObj [(''width'', JNum 20)]) (LogView_constructor False) =
       (LogView_constructor False)\<lparr>data_log := data_log (LogView_constructor False) @
          [(- 1, JObj [(''config'', JObj [(''width'', JNum 20)])])]\<rparr>"
    by (rule conjunct1)
  have e: "update_config 3 (JObj [(''width'', JNum 20)]) (LogView_constructor False) =
       \<lparr> data_log = [(- 1, JObj [(''config'', JObj [(''width'', JNum 20)])])],
         data_aux = Map.empty, logFullState = False, startTime = None,
         currentObjs = JObj [], currentGrippers = JObj [], currentConfig = JObj [] \<rparr>"
    unfolding c by (simp add: LogView_constructor_def)
  have g: "data_log (logger_after
         (react 3 (Update_config (JObj [(''width'', JNum 20)])) (LogView_constructor False)))
       \<noteq> data_log (LogView_constructor False)"
    "\<not> clock_set (logger_after
         (react 3 (Update_config (JObj [(''width'', JNum 20)])) (LogView_constructor False)))"
    by (simp_all add: e) (simp_all add: LogView_constructor_def clock_set_def)
  from w h(2) g
  have "\<exists>c. Update_config (JObj [(''width'', JNum 20)]) = Update_config c"
    by blast
  with h e g show ?thesis by simp
qed

text \<open>
  C6, as the code has it. \<open>addData\<close> with the reserved key \<^verbatim>\<open>"log"\<close> leaves the
  logger, and so the data object, unchanged and prints one diagnostic line; it returns
  \<^verbatim>\<open>undefined\<close>, which is also what every accepted call returns, so the returned value
  does not tell the caller of the rejection.
\<close>

theorem addData_log_rejected:
  "logger_of (addData ''log'' d s) = s
   \<and> console (addData ''log'' d s) =
       [''Error at LogView: Cannot manually add data with reserved key 'log'.'']
   \<and> returned (addData ''log'' d s) = JUndefined
   \<and> returned (addData key d s) = JUndefined"
  by (simp add: addData_def)

text \<open>
  C6, the returned value: the call rejected for the key \<^verbatim>\<open>"log"\<close> and an accepted
  call return the same value, so nothing in it indicates the rejection.
\<close>

theorem addData_return_counterexample:
  "\<not> (returned (addData ''log'' (JArr [JNum 1, JNum 2, JNum 3]) (LogView_constructor True))
       \<noteq> returned (addData ''note'' (JArr [JNum 1, JNum 2, JNum 3]) (LogView_constructor True)))"
  by (simp add: addData_def)

text \<open>
  C7. Once the start time is set (to a reading other than \<open>0\<close>), no delivery and no
  \<open>addData\<close> changes it, and the snapshots that later events of the specification's
  payload types append carry, in order, the readings of their handlers minus that same
  start time. \<open>clear\<close> un-sets the clock; the next full-state event that is not
  skipped then sets the start time to its own reading and records at offset \<open>0\<close>.
\<close>

theorem clock_fixed_until_clear:
  assumes "startTime s = Some t0" "t0 \<noteq> 0"
  shows "startTime (run evs s) = Some t0
     \<and> startTime (logger_of (addData key d s)) = Some t0
     \<and> (list_all (\<lambda>(now, ev). wf_event ev) evs \<longrightarrow>
          map fst (drop (length (data_log s)) (data_log (run evs s)))
            = map (\<lambda>(now, ev). now - t0) evs)
     \<and> startTime (clear s) = None \<and> \<not> clock_set (clear s)
     \<and> (wf_state state \<and> \<not> both_empty state \<longrightarrow>
          (\<exists>s' p. update_state now state (clear s) = Returned s'
             \<and> startTime s' = Some now \<and> data_log s' = [(0, p)]))"
proof (intro conjI impI)
  show "startTime (run evs s) = Some t0"
    using assms by (rule run_started)
  show "startTime (logger_of (addData key d s)) = Some t0"
    using assms by (simp add: addData_def)
  show "startTime (clear s) = None" "\<not> clock_set (clear s)"
    by (simp_all add: clear_def clock_set_def)
next
  assume "list_all (\<lambda>(now, ev). wf_event ev) evs"
  from run_offsets[OF assms this]
  show "map fst (drop (length (data_log s)) (data_log (run evs s)))
            = map (\<lambda>(now, ev). now - t0) evs"
    by auto
next
  assume a: "wf_state state \<and> \<not> both_empty state"
  then obtain objs grippers where
    g: "get_prop state ''objs'' = Inr objs" "get_prop state ''grippers'' = Inr grippers"
    by (auto elim: wf_state_get_prop)
  from a show "\<exists>s' p. update_state now state (clear s) = Returned s'
             \<and> startTime s' = Some now \<and> data_log s' = [(0, p)]"
    by (simp add: update_state_def empty_state_sent_wf log_state_returns[OF g] clear_def)
qed

theorem clock_fixed_until_clear_witness:
  "startTime running_logger = Some 100 \<and> (100::int) \<noteq> 0
   \<and> startTime (run [(150, Update_grippers (JObj [(''g'', JNum 2)])),
                     (200, Update_state empty_state),
                     (250, Update_config (JObj []))] running_logger) = Some 100
   \<and> startTime (logger_of (addData ''note'' (JStr ''x'') running_logger)) = Some 100
   \<and> list_all (\<lambda>(now, ev). wf_event ev)
        [(150::int, Update_grippers (JObj [(''g'', JNum 2)])),
         (200, Update_state empty_state), (250, Update_config (JObj []))]
   \<and> map fst (drop 1 (data_log (run [(150, Update_grippers (JObj [(''g'', JNum 2)])),
                     (200, Update_state empty_state),
                     (250, Update_config (JObj []))] running_logger))) = [50, 100, 150]
   \<and> startTime (clear running_logger) = None
   \<and> wf_state first_state \<and> \<not> both_empty first_state
   \<and> startTime (logger_after (update_state 500 first_state (clear running_logger)))
       = Some 500
   \<and> map fst (data_log (logger_after (update_state 500 first_state (clear running_logger))))
       = [0]"
proof -
  let ?evs = "[(150::int, Update_grippers (JObj [(''g'', JNum 2)])),
              (200, Update_state empty_state), (250, Update_config (JObj []))]"
  have h: "startTime running_logger = Some 100" "(100::int) \<noteq> 0"
    by (simp_all add: running_logger_def)
  have wf: "list_all (\<lambda>(now, ev). wf_event ev) ?evs"
    by (simp add: empty_state_def)
  have q: "wf_state first_state \<and> \<not> both_empty first_state"
    by (simp add: first_state_def)
  have len: "length (data_log running_logger) = 1"
    by (simp add: running_logger_def)
  note w = clock_fixed_until_clear[OF h, of ?evs "''note''" "JStr ''x''" first_state 500]
  from w have 1: "startTime (run ?evs running_logger) = Some 100"
    and 2: "startTime (logger_of (addData ''note'' (JStr ''x'') running_logger)) = Some 100"
    and 4: "startTime (clear running_logger) = None"
    by blast+
  from w wf have "map fst (drop (length (data_log running_logger))
        (data_log (run ?evs running_logger))) = map (\<lambda>(now, ev). now - 100) ?evs"
    by blast
  then have 3: "map fst (drop 1 (data_log (run ?evs running_logger))) = [50, 100, 150]"
    by (simp add: len)
  from w q obtain s' p where
    "update_state 500 first_state (clear running_logger) = Returned s'"
    "startTime s' = Some 500" "data_log s' = [(0, p)]"
    by blast
  then have 5: "startTime (logger_after (update_state 500 first_state (clear running_logger)))
       = Some 500"
    "map fst (data_log (logger_after (update_state 500 first_state (clear running_logger))))
       = [0]"
    by simp_all
  from h 1 2 wf 3 4 q 5 show ?thesis by blast
qed

text \<open>
  C8. \<open>clear\<close> is idempotent, and the state it leaves is the state of a freshly
  constructed logger of the same mode: empty log, no auxiliary keys, unset clock and
  three empty accumulated-substate fields.
\<close>

theorem clear_idempotent_fresh:
  "clear (clear s) = clear s
   \<and> clear s = LogView_constructor (logFullState s)
   \<and> data_log (clear s) = [] \<and> dom (data_aux (clear s)) = {}
   \<and> startTime (clear s) = None
   \<and> currentObjs (clear s) = JObj [] \<and> currentGrippers (clear s) = JObj []
   \<and> currentConfig (clear s) = JObj []"
  by (cases s) (simp add: clear_def LogView_constructor_def)

text \<open>
  C9. In delta mode, a gripper update that arrives once the clock is set appends one
  snapshot, at the offset from the start time, whose payload is the received value
  under the single key \<^verbatim>\<open>"gripper"\<close>; the payload has no \<^verbatim>\<open>"grippers"\<close> property.
\<close>

theorem delta_gripper_update_singular_key:
  assumes "\<not> logFullState s" "startTime s = Some t0" "t0 \<noteq> 0"
  shows "update_grippers now grippers s =
       s\<lparr>data_log := data_log s @ [(now - t0, JObj [(''gripper'', grippers)])]\<rparr>
     \<and> get_prop (snd (last (data_log (update_grippers now grippers s)))) ''gripper''
         = Inr grippers
     \<and> get_prop (snd (last (data_log (update_grippers now grippers s)))) ''grippers''
         = Inr JUndefined"
  using assms by (simp add: update_grippers_def addSnapshot_def)

theorem delta_gripper_update_singular_key_witness:
  "\<not> logFullState (logger_after (update_state 100 first_state (LogView_constructor False)))
   \<and> startTime (logger_after (update_state 100 first_state (LogView_constructor False)))
       = Some 100
   \<and> (100::int) \<noteq> 0
   \<and> data_log (update_grippers 150 (JObj [(''g'', JNum 2)])
        (logger_after (update_state 100 first_state (LogView_constructor False))))
      = [(0, first_state), (50, JObj [(''gripper'', JObj [(''g'', JNum 2)])])]"
proof -
  let ?s = "logger_after (update_state 100 first_state (LogView_constructor False))"
  have s: "?s = \<lparr> data_log = [(0, first_state)],
         data_aux = Map.empty, logFullState = False, startTime = Some 100,
         currentObjs = JObj [], currentGrippers = JObj [], currentConfig = JObj [] \<rparr>"
    by (simp add: update_state_def empty_state_sent_def log_state_def addSnapshot_def
          LogView_constructor_def first_state_def)
  have h: "\<not> logFullState ?s" "startTime ?s = Some 100" "(100::int) \<noteq> 0"
    by (simp_all add: s)
  from delta_gripper_update_singular_key[OF h, of 150 "JObj [(''g'', JNum 2)]"]
  have "update_grippers 150 (JObj [(''g'', JNum 2)]) ?s =
       ?s\<lparr>data_log := data_log ?s @ [(150 - 100, JObj [(''gripper'', JObj [(''g'', JNum 2)])])]\<rparr>"
    by (rule conjunct1)
  then have "data_log (update_grippers 150 (JObj [(''g'', JNum 2)]) ?s)
      = [(0, first_state), (50, JObj [(''gripper'', JObj [(''g'', JNum 2)])])]"
    by (simp add: s)
  with h show ?thesis by simp
qed

text \<open>
  C10. In full-state mode each partial update writes only its own accumulated field: a
  gripper update leaves the accumulated objects and config as they are, an object
  update the grippers and config, a config update the objects and grippers, and none of
  them touches the auxiliary entries. (The own field takes the payload: for grippers
  and objects once the clock is set, for config always.)
\<close>

theorem partial_update_frame:
  assumes "logFullState s"
  shows "currentObjs (update_grippers now p s) = currentObjs s
     \<and> currentConfig (update_grippers now p s) = currentConfig s
     \<and> data_aux (update_grippers now p s) = data_aux s
     \<and> currentGrippers (update_grippers now p s) = (if clock_set s then p else currentGrippers s)
     \<and> currentGrippers (update_objs now p s) = currentGrippers s
     \<and> currentConfig (update_objs now p s) = currentConfig s
     \<and> data_aux (update_objs now p s) = data_aux s
     \<and> currentObjs (update_objs now p s) = (if clock_set s then p else currentObjs s)
     \<and> currentObjs (update_config now p s) = currentObjs s
     \<and> currentGrippers (update_config now p s) = currentGrippers s
     \<and> data_aux (update_config now p s) = data_aux s
     \<and> currentConfig (update_config now p s) = p"
  using assms
  by (simp add: update_grippers_def update_objs_def update_config_def addSnapshot_def
        clock_set_def Let_def split: option.splits)

theorem partial_update_frame_witness:
  "logFullState running_logger
   \<and> currentObjs (update_grippers 150 (JObj [(''g'', JNum 2)]) running_logger)
       = JObj [(''a'', JNum 1)]
   \<and> currentConfig (update_grippers 150 (JObj [(''g'', JNum 2)]) running_logger) = JObj []
   \<and> data_aux (update_grippers 150 (JObj [(''g'', JNum 2)]) running_logger)
       = [''participant'' \<mapsto> JStr ''p1'']
   \<and> currentGrippers (update_grippers 150 (JObj [(''g'', JNum 2)]) running_logger)
       = JObj [(''g'', JNum 2)]
   \<and> currentGrippers (update_objs 150 (JObj []) running_logger) = JObj []
   \<and> currentObjs (update_objs 150 (JObj []) running_logger) = JObj []
   \<and> currentObjs (update_config 150 (JObj [(''width'', JNum 20)]) running_logger)
       = JObj [(''a'', JNum 1)]
   \<and> currentConfig (update_config 150 (JObj [(''width'', JNum 20)]) running_logger)
       = JObj [(''width'', JNum 20)]"
proof -
  have h: "logFullState running_logger"
    by (simp add: running_logger_def)
  have c: "clock_set running_logger"
    by (simp add: running_logger_def clock_set_def)
  from h c partial_update_frame[OF h, of 150 "JObj [(''g'', JNum 2)]"]
    partial_update_frame[OF h, of 150 "JObj []"]
    partial_update_frame[OF h, of 150 "JObj [(''width'', JNum 20)]"]
  show ?thesis by (simp add: running_logger_def)
qed

end
